theory Spec2Isabelle
  imports Complex_Main "HOL-Library.Word"
begin

section \<open>Identity Map: the similarity engine (lib/similarity.ts)\<close>

text \<open>
  The engine is a set of pure functions over two \<open>Identity\<close> values. The embedding keeps
  the structure of the source: the two \<open>Map\<close>s and the \<open>Set\<close> of keys are insertion-ordered
  association lists and duplicate-free lists, every \<open>for\<close> loop is a \<open>fold\<close> over the
  iteration order of the source, and the \<open>forEach\<close> over the three lenses threads an explicit
  loop state.

  A string is a list of 16-bit code units, as in the host language. The lowercasing of the
  host language, \<open>String.prototype.toLowerCase\<close>, is not written out: every function of
  the source that lowercases, itself or through a call, takes it as its first argument
  \<open>toLowerCase\<close>, and every theorem holds for any function in its place.

  Numbers are modelled as exact reals. On integer weights in \<open>[1,3]\<close> the sums of the
  source are exact in IEEE doubles as well; statements that depend on the order of a
  summation carry that condition.
\<close>

subsection \<open>Strings\<close>

type_synonym codeUnit = "16 word"

type_synonym jsString = "codeUnit list"

text \<open>A string literal of the source, written in ASCII.\<close>

definition lit :: "string \<Rightarrow> jsString" where
  "lit s = map (\<lambda>c. of_nat (of_char c)) s"

subsection \<open>Data model\<close>

datatype Lens = GIVEN | CHOSEN | CORE

text \<open>The field \<open>value\<close> of a tag item is \<open>tvalue\<close> here.\<close>

record TagItem =
  tvalue :: jsString
  weight :: real

text \<open>
  \<open>Record<Lens, TagItem[]>\<close>; the source reads every entry through \<open>?? []\<close>, so an entry
  may be missing.
\<close>

record Identity =
  tags :: "Lens \<Rightarrow> TagItem list option"
  texts :: "Lens \<Rightarrow> jsString list option"

record LensSimilarityResult =
  score :: real
  overlapTags :: "jsString list"
  uniqueToA :: "jsString list"
  uniqueToB :: "jsString list"
  topWeights :: "jsString list"

record SimilarityResult =
  scores :: "Lens \<Rightarrow> real"
  scoreOverall :: real
  explanations :: "Lens \<Rightarrow> LensSimilarityResult"

subsection \<open>Built-in string operations of the host language\<close>

text \<open>
  White space of \<open>\s\<close> and of \<open>trim\<close>: TAB, LF, VT, FF, CR, SP, NBSP, \<open>U+1680\<close>,
  \<open>U+2000\<close> to \<open>U+200A\<close>, LS, PS, \<open>U+202F\<close>, \<open>U+205F\<close>, \<open>U+3000\<close> and \<open>U+FEFF\<close>.
\<close>

definition isWhiteSpace :: "codeUnit \<Rightarrow> bool" where
  "isWhiteSpace c =
     (c \<in> set [0x09, 0x0A, 0x0B, 0x0C, 0x0D, 0x20, 0xA0, 0x1680, 0x2028, 0x2029, 0x202F,
                0x205F, 0x3000, 0xFEFF]
      \<or> (0x2000 \<le> c \<and> c \<le> 0x200A))"

definition trim :: "jsString \<Rightarrow> jsString" where
  "trim s = rev (dropWhile isWhiteSpace (rev (dropWhile isWhiteSpace s)))"

text \<open>\<open>s.endsWith(suffix)\<close> and \<open>s.slice(0, -n)\<close>.\<close>

definition endsWith :: "jsString \<Rightarrow> jsString \<Rightarrow> bool" where
  "endsWith s suffix =
     (length suffix \<le> length s \<and> drop (length s - length suffix) s = suffix)"

definition sliceEnd :: "jsString \<Rightarrow> nat \<Rightarrow> jsString" where
  "sliceEnd s n = take (length s - n) s"

text \<open>
  The character class \<open>[a-z0-9\s]\<close> of the regular expression, two ranges of code units
  and the white space, and \<open>replace(/[^a-z0-9\s]/g, ' ')\<close>.
\<close>

definition isKeptChar :: "codeUnit \<Rightarrow> bool" where
  "isKeptChar c =
     ((0x61 \<le> c \<and> c \<le> 0x7A) \<or> (0x30 \<le> c \<and> c \<le> 0x39) \<or> isWhiteSpace c)"

definition replaceNonAlnum :: "jsString \<Rightarrow> jsString" where
  "replaceNonAlnum s = map (\<lambda>c. if isKeptChar c then c else 0x20) s"

text \<open>
  \<open>s.split(/\s+/)\<close>: the scan keeps the piece read so far (reversed) and whether it stands
  inside a separator. A separator at the start or at the end of the string leaves an empty
  piece there, and the empty string gives one empty piece.
\<close>

fun splitScan :: "jsString \<Rightarrow> bool \<Rightarrow> jsString \<Rightarrow> jsString list" where
  "splitScan cur inSep [] = [rev cur]"
| "splitScan cur inSep (c # cs) =
     (if isWhiteSpace c
      then (if inSep then splitScan cur True cs else rev cur # splitScan [] True cs)
      else splitScan (c # cur) False cs)"

definition splitWhitespace :: "jsString \<Rightarrow> jsString list" where
  "splitWhitespace s = splitScan [] False s"

text \<open>
  What \<open>toLowerCase\<close> does on a string of code units below 256: the letters \<open>A\<close> to \<open>Z\<close>
  and \<open>U+00C0\<close> to \<open>U+00DE\<close> (without the multiplication sign \<open>U+00D7\<close>) move 32 code
  units up. It stands for the host function where a concrete input is evaluated.
\<close>

definition isUpperLatin1 :: "codeUnit \<Rightarrow> bool" where
  "isUpperLatin1 c =
     ((0x41 \<le> c \<and> c \<le> 0x5A) \<or> (0xC0 \<le> c \<and> c \<le> 0xDE \<and> c \<noteq> 0xD7))"

definition toLowerCaseLatin1 :: "jsString \<Rightarrow> jsString" where
  "toLowerCaseLatin1 s = map (\<lambda>c. if isUpperLatin1 c then c + 0x20 else c) s"

subsection \<open>Tokenizer\<close>

definition STOP_WORDS :: "jsString list" where
  "STOP_WORDS =
     map lit
       [''the'', ''a'', ''an'', ''and'', ''or'', ''but'', ''if'', ''on'', ''in'', ''with'',
        ''to'', ''for'', ''of'', ''by'', ''is'', ''are'', ''am'', ''be'', ''was'', ''were'',
        ''this'', ''that'']"

definition simpleStem :: "jsString \<Rightarrow> jsString" where
  "simpleStem token =
     (if endsWith token (lit ''ing'') \<and> length token > 4 then sliceEnd token 3
      else if endsWith token (lit ''ed'') \<and> length token > 3 then sliceEnd token 2
      else if endsWith token (lit ''s'') \<and> length token > 3 then sliceEnd token 1
      else token)"

definition tokenize :: "(jsString \<Rightarrow> jsString) \<Rightarrow> jsString \<Rightarrow> jsString list" where
  "tokenize toLowerCase text =
     (let cleaned = replaceNonAlnum (toLowerCase text);
          rawTokens = filter (\<lambda>t. length t > 0) (splitWhitespace cleaned);
          processed = map simpleStem (filter (\<lambda>t. t \<notin> set STOP_WORDS) rawTokens)
      in processed)"

subsection \<open>Insertion-ordered maps and sets\<close>

text \<open>
  A \<open>Map<string, number>\<close> in insertion order: \<open>set\<close> on a key that is present keeps its
  position, a new key goes to the end.
\<close>

type_synonym wmap = "(jsString \<times> real) list"

fun mapSet :: "wmap \<Rightarrow> jsString \<Rightarrow> real \<Rightarrow> wmap" where
  "mapSet [] k v = [(k, v)]"
| "mapSet ((k', v') # m) k v = (if k' = k then (k, v) # m else (k', v') # mapSet m k v)"

text \<open>\<open>m.get(key) ?? 0\<close>.\<close>

definition getOr0 :: "wmap \<Rightarrow> jsString \<Rightarrow> real" where
  "getOr0 m k = (case map_of m k of None \<Rightarrow> 0 | Some w \<Rightarrow> w)"

definition mapKeys :: "wmap \<Rightarrow> jsString list" where
  "mapKeys m = map fst m"

text \<open>\<open>new Set(xs)\<close>: the first occurrence of every element, in order.\<close>

definition setAdd :: "'a list \<Rightarrow> 'a \<Rightarrow> 'a list" where
  "setAdd s x = (if x \<in> set s then s else s @ [x])"

definition newSet :: "'a list \<Rightarrow> 'a list" where
  "newSet xs = fold (\<lambda>x s. setAdd s x) xs []"

subsection \<open>Weighted Jaccard over tags\<close>

definition tagKey :: "(jsString \<Rightarrow> jsString) \<Rightarrow> TagItem \<Rightarrow> jsString" where
  "tagKey toLowerCase item = toLowerCase (trim (tvalue item))"

text \<open>
  The loop that fills \<open>mapA\<close> (and \<open>mapB\<close>); the source writes it out four times, in
  \<open>weightedJaccard\<close> and in \<open>explainLens\<close>.
\<close>

definition collapseStep :: "(jsString \<Rightarrow> jsString) \<Rightarrow> TagItem \<Rightarrow> wmap \<Rightarrow> wmap" where
  "collapseStep toLowerCase item m =
     (let key = tagKey toLowerCase item in mapSet m key (max (getOr0 m key) (weight item)))"

definition collapseTags :: "(jsString \<Rightarrow> jsString) \<Rightarrow> TagItem list \<Rightarrow> wmap" where
  "collapseTags toLowerCase items = fold (collapseStep toLowerCase) items []"

definition allKeysOf :: "wmap \<Rightarrow> wmap \<Rightarrow> jsString list" where
  "allKeysOf mapA mapB = newSet (mapKeys mapA @ mapKeys mapB)"

definition jaccardStep :: "wmap \<Rightarrow> wmap \<Rightarrow> jsString \<Rightarrow> real \<times> real \<Rightarrow> real \<times> real" where
  "jaccardStep mapA mapB key acc =
     (let wA = getOr0 mapA key; wB = getOr0 mapB key
      in (fst acc + min wA wB, snd acc + max wA wB))"

definition weightedJaccard ::
  "(jsString \<Rightarrow> jsString) \<Rightarrow> TagItem list \<Rightarrow> TagItem list \<Rightarrow> real" where
  "weightedJaccard toLowerCase a b =
     (let mapA = collapseTags toLowerCase a;
          mapB = collapseTags toLowerCase b;
          allKeys = allKeysOf mapA mapB
      in if length allKeys = 0 then 0
         else let totals = fold (jaccardStep mapA mapB) allKeys (0, 0);
                  numerator = fst totals;
                  denominator = snd totals
              in if denominator = 0 then 0 else numerator / denominator)"

subsection \<open>Text Jaccard\<close>

definition textJaccard :: "jsString list \<Rightarrow> jsString list \<Rightarrow> real" where
  "textJaccard aTokens bTokens =
     (let setA = newSet aTokens;
          setB = newSet bTokens
      in if length setA = 0 \<and> length setB = 0 then 0
         else let intersection = fold (\<lambda>t i. if t \<in> set setB then i + 1 else i) setA (0::nat);
                  unionSize = length (newSet (setA @ setB))
              in if unionSize = 0 then 0 else real intersection / real unionSize)"

subsection \<open>Lens score\<close>

definition computeLensSimilarity ::
  "(jsString \<Rightarrow> jsString) \<Rightarrow> TagItem list \<Rightarrow> jsString list \<Rightarrow> TagItem list \<Rightarrow> jsString list
     \<Rightarrow> real" where
  "computeLensSimilarity toLowerCase a aTexts b bTexts =
     (let jw = weightedJaccard toLowerCase a b;
          tj = textJaccard aTexts bTexts
      in 0.7 * jw + 0.3 * tj)"

subsection \<open>Explanation of a lens\<close>

text \<open>
  The object that \<open>explainLens\<close> returns; its field \<open>topWeights\<close> is \<open>topWeights'\<close>
  here, the plain name being the field of \<open>LensSimilarityResult\<close>.
\<close>

record LensExplanation =
  overlap :: "jsString list"
  uniqueA :: "jsString list"
  uniqueB :: "jsString list"
  topWeights' :: "jsString list"

text \<open>The four accumulators of the loop over \<open>allKeys\<close> in \<open>explainLens\<close>.\<close>

record ExplainState =
  accOverlap :: "jsString list"
  accUniqueA :: "jsString list"
  accUniqueB :: "jsString list"
  weightMap :: wmap

definition explainStep :: "wmap \<Rightarrow> wmap \<Rightarrow> jsString \<Rightarrow> ExplainState \<Rightarrow> ExplainState" where
  "explainStep mapA mapB key st =
     (let wA = getOr0 mapA key;
          wB = getOr0 mapB key;
          st' = (if wA > 0 \<and> wB > 0 then st\<lparr>accOverlap := accOverlap st @ [key]\<rparr>
                 else if wA > 0 then st\<lparr>accUniqueA := accUniqueA st @ [key]\<rparr>
                 else st\<lparr>accUniqueB := accUniqueB st @ [key]\<rparr>)
      in st'\<lparr>weightMap := mapSet (weightMap st') key (max wA wB)\<rparr>)"

text \<open>
  \<open>entries.sort(cmp)\<close> is a stable sort: an entry goes before the first entry it does not
  have to follow. The comparator of the source is \<open>([, w1], [, w2]) => w2 - w1\<close>.
\<close>

fun insertBy :: "('a \<Rightarrow> 'a \<Rightarrow> real) \<Rightarrow> 'a \<Rightarrow> 'a list \<Rightarrow> 'a list" where
  "insertBy cmp x [] = [x]"
| "insertBy cmp x (y # ys) = (if cmp x y \<le> 0 then x # y # ys else y # insertBy cmp x ys)"

definition sortBy :: "('a \<Rightarrow> 'a \<Rightarrow> real) \<Rightarrow> 'a list \<Rightarrow> 'a list" where
  "sortBy cmp xs = foldr (insertBy cmp) xs []"

definition byWeightDesc :: "jsString \<times> real \<Rightarrow> jsString \<times> real \<Rightarrow> real" where
  "byWeightDesc e1 e2 = snd e2 - snd e1"

definition explainLens ::
  "(jsString \<Rightarrow> jsString) \<Rightarrow> TagItem list \<Rightarrow> TagItem list \<Rightarrow> LensExplanation" where
  "explainLens toLowerCase a b =
     (let mapA = collapseTags toLowerCase a;
          mapB = collapseTags toLowerCase b;
          allKeys = allKeysOf mapA mapB;
          st = fold (explainStep mapA mapB) allKeys
                 \<lparr>accOverlap = [], accUniqueA = [], accUniqueB = [], weightMap = []\<rparr>;
          top = map fst (take 3 (sortBy byWeightDesc (weightMap st)))
      in \<lparr>overlap = accOverlap st, uniqueA = accUniqueA st, uniqueB = accUniqueB st,
          topWeights' = top\<rparr>)"

subsection \<open>Similarity of two identities\<close>

definition lensWeights :: "Lens \<Rightarrow> real" where
  "lensWeights lens = (case lens of GIVEN \<Rightarrow> 0.8 | CHOSEN \<Rightarrow> 1.0 | CORE \<Rightarrow> 1.2)"

text \<open>\<open>x ?? []\<close>.\<close>

definition orEmpty :: "'a list option \<Rightarrow> 'a list" where
  "orEmpty x = (case x of None \<Rightarrow> [] | Some xs \<Rightarrow> xs)"

text \<open>What the \<open>forEach\<close> over the lenses updates.\<close>

record LoopState =
  curScores :: "Lens \<Rightarrow> real"
  curExplanations :: "Lens \<Rightarrow> LensSimilarityResult"
  weightedSum :: real
  weightTotal :: real

definition lensTags :: "Identity \<Rightarrow> Lens \<Rightarrow> TagItem list" where
  "lensTags a lens = orEmpty (tags a lens)"

definition lensTokens :: "(jsString \<Rightarrow> jsString) \<Rightarrow> Identity \<Rightarrow> Lens \<Rightarrow> jsString list" where
  "lensTokens toLowerCase a lens = concat (map (tokenize toLowerCase) (orEmpty (texts a lens)))"

definition lensBody ::
  "(jsString \<Rightarrow> jsString) \<Rightarrow> Identity \<Rightarrow> Identity \<Rightarrow> Lens \<Rightarrow> LoopState \<Rightarrow> LoopState" where
  "lensBody toLowerCase a b lens st =
     (let aTags = lensTags a lens;
          bTags = lensTags b lens;
          aTexts = lensTokens toLowerCase a lens;
          bTexts = lensTokens toLowerCase b lens;
          sc = computeLensSimilarity toLowerCase aTags aTexts bTags bTexts;
          exp = explainLens toLowerCase aTags bTags
      in \<lparr>curScores = (curScores st)(lens := sc),
          curExplanations = (curExplanations st)(lens :=
            \<lparr>score = sc, overlapTags = overlap exp, uniqueToA = uniqueA exp,
             uniqueToB = uniqueB exp, topWeights = topWeights' exp\<rparr>),
          weightedSum = weightedSum st + sc * lensWeights lens,
          weightTotal = weightTotal st + lensWeights lens\<rparr>)"

definition emptyExplanation :: LensSimilarityResult where
  "emptyExplanation =
     \<lparr>score = 0, overlapTags = [], uniqueToA = [], uniqueToB = [], topWeights = []\<rparr>"

definition computeSimilarity ::
  "(jsString \<Rightarrow> jsString) \<Rightarrow> Identity \<Rightarrow> Identity \<Rightarrow> SimilarityResult" where
  "computeSimilarity toLowerCase a b =
     (let st = fold (lensBody toLowerCase a b) [GIVEN, CHOSEN, CORE]
                 \<lparr>curScores = (\<lambda>lens. 0), curExplanations = (\<lambda>lens. emptyExplanation),
                  weightedSum = 0, weightTotal = 0\<rparr>;
          overall = (if weightTotal st = 0 then 0 else weightedSum st / weightTotal st)
      in \<lparr>scores = curScores st, scoreOverall = overall, explanations = curExplanations st\<rparr>)"

section \<open>Definitions that follow the specification\<close>

subsection \<open>The weight contract\<close>

text \<open>Every tag weight of an identity lies in \<open>[1,3]\<close>.\<close>

definition weightsInRange :: "Identity \<Rightarrow> bool" where
  "weightsInRange a =
     list_all (\<lambda>lens. list_all (\<lambda>t. 1 \<le> weight t \<and> weight t \<le> 3) (orEmpty (tags a lens)))
       [GIVEN, CHOSEN, CORE]"

text \<open>
  The contract of the data model on a tag item: its weight is an integer in \<open>[1,3]\<close>. The
  engine does not check it; the data store and the entry form do.
\<close>

definition contractWeight :: "real \<Rightarrow> bool" where
  "contractWeight w = (w = 1 \<or> w = 2 \<or> w = 3)"

definition contractTags :: "TagItem list \<Rightarrow> bool" where
  "contractTags items = list_all (\<lambda>t. contractWeight (weight t)) items"

definition contractIdentity :: "Identity \<Rightarrow> bool" where
  "contractIdentity a =
     list_all (\<lambda>lens. contractTags (orEmpty (tags a lens))) [GIVEN, CHOSEN, CORE]"

subsection \<open>The tokenizer pipeline, as the specification words it\<close>

text \<open>
  The class \<open>[a-z0-9]\<close>, character by character: the 26 lower-case letters and the 10
  digits.
\<close>

definition lowerCaseLetters :: jsString where
  "lowerCaseLetters = lit ''abcdefghijklmnopqrstuvwxyz''"

definition decimalDigits :: jsString where
  "decimalDigits = lit ''0123456789''"

definition isLetterOrDigit :: "codeUnit \<Rightarrow> bool" where
  "isLetterOrDigit c = (c \<in> set lowerCaseLetters \<or> c \<in> set decimalDigits)"

text \<open>
  Every character that is neither in that class nor white space becomes a space; the
  others stay.
\<close>

definition blankOthers :: "jsString \<Rightarrow> jsString" where
  "blankOthers s =
     map (\<lambda>c. if isLetterOrDigit c \<or> isWhiteSpace c then c else of_nat (of_char CHR '' '')) s"

text \<open>
  Splitting on white-space runs and dropping the empty tokens leaves the maximal runs of
  characters that are not white space.
\<close>

function wordsOf :: "jsString \<Rightarrow> jsString list" where
  "wordsOf s =
     (case dropWhile isWhiteSpace s of
        [] \<Rightarrow> []
      | c # cs \<Rightarrow> takeWhile (\<lambda>x. \<not> isWhiteSpace x) (c # cs)
                 # wordsOf (dropWhile (\<lambda>x. \<not> isWhiteSpace x) (c # cs)))"
  by pat_completeness auto
termination
proof (relation "measure length")
  show "wf (measure length)" by simp
next
  fix s :: jsString and c cs
  assume eq: "dropWhile isWhiteSpace s = c # cs"
  have "length (dropWhile (\<lambda>x. \<not> isWhiteSpace x) (c # cs)) \<le> length (c # cs)"
    by (rule length_dropWhile_le)
  moreover have "\<not> isWhiteSpace c"
    using eq hd_dropWhile [of isWhiteSpace s] by auto
  ultimately have "length (dropWhile (\<lambda>x. \<not> isWhiteSpace x) (c # cs)) < length (c # cs)"
    using length_dropWhile_le [of "\<lambda>x. \<not> isWhiteSpace x" cs] by simp
  moreover have "length (c # cs) \<le> length s"
    using length_dropWhile_le [of isWhiteSpace s] eq by simp
  ultimately show "(dropWhile (\<lambda>x. \<not> isWhiteSpace x) (c # cs), s) \<in> measure length"
    by simp
qed

declare wordsOf.simps [simp del]

text \<open>The fixed stopword set.\<close>

definition stopwordSet :: "jsString set" where
  "stopwordSet =
     {lit ''the'', lit ''a'', lit ''an'', lit ''and'', lit ''or'', lit ''but'', lit ''if'',
      lit ''on'', lit ''in'', lit ''with'', lit ''to'', lit ''for'', lit ''of'', lit ''by'',
      lit ''is'', lit ''are'', lit ''am'', lit ''be'', lit ''was'', lit ''were'', lit ''this'',
      lit ''that''}"

text \<open>
  Stripping a trailing suffix, and the three stemming rules in their order of priority, at
  most one of them applied.
\<close>

definition dropTrailing :: "jsString \<Rightarrow> jsString \<Rightarrow> jsString option" where
  "dropTrailing suffix t =
     (if take (length suffix) (rev t) = rev suffix
      then Some (rev (drop (length suffix) (rev t))) else None)"

definition stemOf :: "jsString \<Rightarrow> jsString" where
  "stemOf t =
     (case (if length t > 4 then dropTrailing (lit ''ing'') t else None) of
        Some r \<Rightarrow> r
      | None \<Rightarrow>
          (case (if length t > 3 then dropTrailing (lit ''ed'') t else None) of
             Some r \<Rightarrow> r
           | None \<Rightarrow>
               (case (if length t > 3 then dropTrailing (lit ''s'') t else None) of
                  Some r \<Rightarrow> r
                | None \<Rightarrow> t)))"

text \<open>
  Lowercase, blank out what is neither \<open>[a-z0-9]\<close> nor white space, split, drop the
  stopwords, stem.
\<close>

definition tokenizePipeline :: "(jsString \<Rightarrow> jsString) \<Rightarrow> jsString \<Rightarrow> jsString list" where
  "tokenizePipeline toLowerCase text =
     map stemOf (filter (\<lambda>t. t \<notin> stopwordSet) (wordsOf (blankOthers (toLowerCase text))))"

subsection \<open>The weighted Jaccard, as the specification words it\<close>

text \<open>
  The key of a tag is its trimmed, lowercased value. Each list collapses to the map from a
  key to the maximum weight among the tags with that key; a key that is absent counts with
  weight 0; the result is 0 for an empty union of keys and otherwise the sum of the minima
  divided by the sum of the maxima.
\<close>

definition normalizedValue :: "(jsString \<Rightarrow> jsString) \<Rightarrow> TagItem \<Rightarrow> jsString" where
  "normalizedValue toLowerCase t = toLowerCase (trim (tvalue t))"

definition maxWeightMap :: "(jsString \<Rightarrow> jsString) \<Rightarrow> TagItem list \<Rightarrow> jsString \<rightharpoonup> real" where
  "maxWeightMap toLowerCase items k =
     (let ws = map weight (filter (\<lambda>t. normalizedValue toLowerCase t = k) items)
      in if ws = [] then None else Some (Max (set ws)))"

definition weightOrZero :: "(jsString \<rightharpoonup> real) \<Rightarrow> jsString \<Rightarrow> real" where
  "weightOrZero m k = (case m k of None \<Rightarrow> 0 | Some w \<Rightarrow> w)"

definition weightedJaccardFormula ::
  "(jsString \<Rightarrow> jsString) \<Rightarrow> TagItem list \<Rightarrow> TagItem list \<Rightarrow> real" where
  "weightedJaccardFormula toLowerCase a b =
     (let mA = maxWeightMap toLowerCase a;
          mB = maxWeightMap toLowerCase b;
          U = set (map (normalizedValue toLowerCase) a) \<union> set (map (normalizedValue toLowerCase) b)
      in if U = {} then 0
         else (\<Sum>k\<in>U. min (weightOrZero mA k) (weightOrZero mB k))
              / (\<Sum>k\<in>U. max (weightOrZero mA k) (weightOrZero mB k)))"

section \<open>Sample identities\<close>

text \<open>
  \<open>emptyIdentity\<close> is the identity of the bounds test of the repository; \<open>halfA\<close> and
  \<open>halfB\<close> share half of their tag weight and half of their tokens in every lens.
\<close>

definition emptyIdentity :: Identity where
  "emptyIdentity = \<lparr>tags = (\<lambda>lens. Some []), texts = (\<lambda>lens. Some [])\<rparr>"

definition halfA :: Identity where
  "halfA = \<lparr>tags = (\<lambda>lens. Some [\<lparr>tvalue = lit ''Music'', weight = 1\<rparr>]),
            texts = (\<lambda>lens. Some [lit ''Hiking''])\<rparr>"

definition halfB :: Identity where
  "halfB = \<lparr>tags = (\<lambda>lens. Some [\<lparr>tvalue = lit '' music'', weight = 2\<rparr>]),
            texts = (\<lambda>lens. Some [lit ''the hiked'', lit ''trail''])\<rparr>"

text \<open>
  \<open>set1\<close> and \<open>set4\<close> are the tag lists of the weighted Jaccard test of the repository
  (and of the worked example of the specification); \<open>tagsOnly\<close> has a tag and no text in
  every lens.
\<close>

definition set1 :: "TagItem list" where
  "set1 = [\<lparr>tvalue = lit ''music'', weight = 3\<rparr>, \<lparr>tvalue = lit ''sports'', weight = 2\<rparr>]"

definition set4 :: "TagItem list" where
  "set4 = [\<lparr>tvalue = lit ''music'', weight = 1\<rparr>, \<lparr>tvalue = lit ''travel'', weight = 2\<rparr>]"

definition tagsOnly :: Identity where
  "tagsOnly = \<lparr>tags = (\<lambda>lens. Some [\<lparr>tvalue = lit ''music'', weight = 2\<rparr>]),
               texts = (\<lambda>lens. Some [])\<rparr>"

section \<open>Properties of the building blocks\<close>

subsection \<open>Sets and maps in insertion order\<close>

lemma set_fold_setAdd: "set (fold (\<lambda>x s. setAdd s x) xs acc) = set acc \<union> set xs"
  by (induction xs arbitrary: acc) (auto simp: setAdd_def)

lemma distinct_fold_setAdd: "distinct acc \<Longrightarrow> distinct (fold (\<lambda>x s. setAdd s x) xs acc)"
  by (induction xs arbitrary: acc) (auto simp: setAdd_def)

lemma set_newSet: "set (newSet xs) = set xs"
  by (simp add: newSet_def set_fold_setAdd)

lemma distinct_newSet: "distinct (newSet xs)"
  by (simp add: newSet_def distinct_fold_setAdd)

lemma map_fst_mapSet:
  "map fst (mapSet m k v) = (if k \<in> fst ` set m then map fst m else map fst m @ [k])"
proof (induction m)
  case Nil
  then show ?case by simp
next
  case (Cons e m)
  then show ?case by (cases e) force
qed

lemma mapKeys_Nil: "mapKeys [] = []"
  by (simp add: mapKeys_def)

lemma Max_insert_max:
  "finite S \<Longrightarrow> Max (insert (max x w) S) = Max (insert (x::real) (insert w S))"
  by (cases "S = {}") (simp_all add: max.assoc)

lemma map_of_mapSet: "map_of (mapSet m k v) = (map_of m)(k \<mapsto> v)"
  by (induction m) (auto simp: fun_eq_iff)

lemma getOr0_mapSet: "getOr0 (mapSet m k v) k' = (if k' = k then v else getOr0 m k')"
  by (simp add: getOr0_def map_of_mapSet)

lemma getOr0_collapseStep:
  "getOr0 (collapseStep toLowerCase item m) k =
     (if k = tagKey toLowerCase item then max (getOr0 m k) (weight item) else getOr0 m k)"
  by (simp add: collapseStep_def Let_def getOr0_mapSet)

lemma keys_collapseStep:
  "set (mapKeys (collapseStep toLowerCase item m)) = insert (tagKey toLowerCase item) (set (mapKeys m))"
  by (auto simp: collapseStep_def Let_def mapKeys_def map_fst_mapSet)

lemma distinct_collapseStep:
  "distinct (mapKeys m) \<Longrightarrow> distinct (mapKeys (collapseStep toLowerCase item m))"
  by (auto simp: collapseStep_def Let_def mapKeys_def map_fst_mapSet)

lemma keys_fold_collapse:
  "set (mapKeys (fold (collapseStep toLowerCase) items m)) = set (mapKeys m) \<union> tagKey toLowerCase ` set items"
  by (induction items arbitrary: m) (auto simp: keys_collapseStep)

lemma distinct_fold_collapse:
  "distinct (mapKeys m) \<Longrightarrow> distinct (mapKeys (fold (collapseStep toLowerCase) items m))"
  by (induction items arbitrary: m) (auto simp: distinct_collapseStep)

lemma keys_collapseTags: "set (mapKeys (collapseTags toLowerCase items)) = tagKey toLowerCase ` set items"
  by (simp add: collapseTags_def keys_fold_collapse mapKeys_Nil)

lemma distinct_collapseTags: "distinct (mapKeys (collapseTags toLowerCase items))"
  by (simp add: collapseTags_def distinct_fold_collapse mapKeys_Nil)

lemma getOr0_fold_collapse:
  "getOr0 (fold (collapseStep toLowerCase) items m) k =
     Max (insert (getOr0 m k) (weight ` {t \<in> set items. tagKey toLowerCase t = k}))"
proof (induction items arbitrary: m)
  case Nil
  then show ?case by simp
next
  case (Cons item items)
  let ?S = "weight ` {t \<in> set items. tagKey toLowerCase t = k}"
  have fin: "finite ?S" by simp
  show ?case
  proof (cases "k = tagKey toLowerCase item")
    case True
    then have S: "weight ` {t \<in> set (item # items). tagKey toLowerCase t = k} = insert (weight item) ?S"
      by auto
    have "getOr0 (fold (collapseStep toLowerCase) (item # items) m) k
            = Max (insert (getOr0 (collapseStep toLowerCase item m) k) ?S)"
      by (simp add: Cons.IH)
    also have "\<dots> = Max (insert (max (getOr0 m k) (weight item)) ?S)"
      using True by (simp add: getOr0_collapseStep)
    also have "\<dots> = Max (insert (getOr0 m k) (insert (weight item) ?S))"
      using fin by (rule Max_insert_max)
    finally show ?thesis
      by (simp only: S)
  next
    case False
    then have S: "weight ` {t \<in> set (item # items). tagKey toLowerCase t = k} = ?S"
      by auto
    have "getOr0 (fold (collapseStep toLowerCase) (item # items) m) k
            = Max (insert (getOr0 (collapseStep toLowerCase item m) k) ?S)"
      by (simp add: Cons.IH)
    also have "\<dots> = Max (insert (getOr0 m k) ?S)"
      using False by (simp add: getOr0_collapseStep)
    finally show ?thesis
      by (simp only: S)
  qed
qed

lemma getOr0_collapseTags:
  "getOr0 (collapseTags toLowerCase items) k = Max (insert 0 (weight ` {t \<in> set items. tagKey toLowerCase t = k}))"
proof -
  have "getOr0 [] k = 0" by (simp add: getOr0_def)
  then show ?thesis by (simp add: collapseTags_def getOr0_fold_collapse)
qed

lemma getOr0_collapseTags_nonneg: "0 \<le> getOr0 (collapseTags toLowerCase items) k"
  by (simp add: getOr0_collapseTags)

lemma getOr0_collapseTags_pos:
  "0 < getOr0 (collapseTags toLowerCase items) k \<longleftrightarrow> (\<exists>t\<in>set items. tagKey toLowerCase t = k \<and> 0 < weight t)"
proof -
  let ?S = "weight ` {t \<in> set items. tagKey toLowerCase t = k}"
  have "0 < Max (insert 0 ?S) \<longleftrightarrow> (\<exists>w\<in>insert 0 ?S. 0 < w)"
    by (rule Max_gr_iff) simp_all
  then show ?thesis
    by (auto simp: getOr0_collapseTags)
qed

subsection \<open>Weighted Jaccard as a quotient of two sums over the key set\<close>

lemma fold_jaccardStep:
  "fold (jaccardStep mapA mapB) ks acc =
     (fst acc + sum_list (map (\<lambda>k. min (getOr0 mapA k) (getOr0 mapB k)) ks),
      snd acc + sum_list (map (\<lambda>k. max (getOr0 mapA k) (getOr0 mapB k)) ks))"
  by (induction ks arbitrary: acc) (simp_all add: jaccardStep_def Let_def)

lemma set_allKeysOf: "set (allKeysOf mapA mapB) = set (mapKeys mapA) \<union> set (mapKeys mapB)"
  by (simp add: allKeysOf_def set_newSet)

lemma distinct_allKeysOf: "distinct (allKeysOf mapA mapB)"
  by (simp add: allKeysOf_def distinct_newSet)

lemma weightedJaccard_sum:
  "weightedJaccard toLowerCase a b =
     (let K = tagKey toLowerCase ` set a \<union> tagKey toLowerCase ` set b;
          n = (\<Sum>k\<in>K. min (getOr0 (collapseTags toLowerCase a) k) (getOr0 (collapseTags toLowerCase b) k));
          d = (\<Sum>k\<in>K. max (getOr0 (collapseTags toLowerCase a) k) (getOr0 (collapseTags toLowerCase b) k))
      in if K = {} then 0 else if d = 0 then 0 else n / d)"
proof -
  let ?ks = "allKeysOf (collapseTags toLowerCase a) (collapseTags toLowerCase b)"
  have K: "set ?ks = tagKey toLowerCase ` set a \<union> tagKey toLowerCase ` set b"
    by (simp add: set_allKeysOf keys_collapseTags)
  have len: "length ?ks = 0 \<longleftrightarrow> tagKey toLowerCase ` set a \<union> tagKey toLowerCase ` set b = {}"
    using K by (metis length_0_conv set_empty)
  have sums: "sum_list (map f ?ks) = sum f (tagKey toLowerCase ` set a \<union> tagKey toLowerCase ` set b)" for f :: "jsString \<Rightarrow> real"
    using sum_list_distinct_conv_sum_set [OF distinct_allKeysOf, of f "collapseTags toLowerCase a" "collapseTags toLowerCase b"] K
    by simp
  show ?thesis
    unfolding weightedJaccard_def Let_def fold_jaccardStep len sums
    by simp
qed

lemma weightedJaccard_commute: "weightedJaccard toLowerCase a b = weightedJaccard toLowerCase b a"
  by (simp add: weightedJaccard_sum Let_def Un_commute min.commute max.commute)

subsection \<open>Text Jaccard as a quotient of two cardinalities\<close>

lemma fold_count:
  "fold (\<lambda>t i. if t \<in> S then i + 1 else i) xs (i0::nat) = i0 + length (filter (\<lambda>t. t \<in> S) xs)"
  by (induction xs arbitrary: i0) simp_all

lemma newSet_Nil_iff: "newSet z = [] \<longleftrightarrow> z = []"
  by (metis set_empty set_newSet)

lemma textJaccard_card:
  "textJaccard x y =
     (if set x = {} \<and> set y = {} then 0
      else real (card (set x \<inter> set y)) / real (card (set x \<union> set y)))"
proof -
  have inter: "length (filter (\<lambda>t. t \<in> set (newSet y)) (newSet x)) = card (set x \<inter> set y)"
    using distinct_length_filter [OF distinct_newSet, of "\<lambda>t. t \<in> set y" x]
    by (simp add: set_newSet Int_commute Collect_mem_eq)
  have un: "length (newSet (newSet x @ newSet y)) = card (set x \<union> set y)"
    using distinct_card [OF distinct_newSet, of "newSet x @ newSet y"]
    by (simp add: set_newSet)
  show ?thesis
    unfolding textJaccard_def Let_def fold_count inter un
    by (simp add: newSet_Nil_iff)
qed

lemma textJaccard_commute: "textJaccard x y = textJaccard y x"
  by (simp add: textJaccard_card Int_commute Un_commute conj_commute)

lemma nat_ratio_le_1: "(m::nat) \<le> n \<Longrightarrow> real m / real n \<le> 1"
  by (cases "n = 0") simp_all

lemma textJaccard_range: "0 \<le> textJaccard x y \<and> textJaccard x y \<le> 1"
proof -
  have "card (set x \<inter> set y) \<le> card (set x \<union> set y)"
    by (rule card_mono) auto
  then have "real (card (set x \<inter> set y)) / real (card (set x \<union> set y)) \<le> 1"
    by (rule nat_ratio_le_1)
  then show ?thesis
    by (simp add: textJaccard_card)
qed

lemma textJaccard_self: "textJaccard x x = (if x = [] then 0 else 1)"
  by (simp add: textJaccard_card card_gt_0_iff)

subsection \<open>Range and self-comparison of the weighted Jaccard\<close>

lemma weightedJaccard_range: "0 \<le> weightedJaccard toLowerCase a b \<and> weightedJaccard toLowerCase a b \<le> 1"
proof -
  let ?K = "tagKey toLowerCase ` set a \<union> tagKey toLowerCase ` set b"
  let ?n = "\<Sum>k\<in>?K. min (getOr0 (collapseTags toLowerCase a) k) (getOr0 (collapseTags toLowerCase b) k)"
  let ?d = "\<Sum>k\<in>?K. max (getOr0 (collapseTags toLowerCase a) k) (getOr0 (collapseTags toLowerCase b) k)"
  have n0: "0 \<le> ?n"
    by (rule sum_nonneg) (simp add: getOr0_collapseTags_nonneg)
  have nd: "?n \<le> ?d"
    by (rule sum_mono) simp
  have "0 \<le> ?n / ?d \<and> ?n / ?d \<le> 1" if "?d \<noteq> 0"
  proof -
    from n0 nd that have "0 < ?d" by linarith
    with n0 nd show ?thesis by simp
  qed
  then show ?thesis
    by (simp add: weightedJaccard_sum Let_def)
qed

lemma weightedJaccard_self:
  "weightedJaccard toLowerCase a a = (if \<exists>t\<in>set a. 0 < weight t then 1 else 0)"
proof -
  let ?K = "tagKey toLowerCase ` set a"
  let ?d = "\<Sum>k\<in>?K. getOr0 (collapseTags toLowerCase a) k"
  have "?d = 0 \<longleftrightarrow> (\<forall>k\<in>?K. getOr0 (collapseTags toLowerCase a) k = 0)"
    by (rule sum_nonneg_eq_0_iff) (simp_all add: getOr0_collapseTags_nonneg)
  also have "\<dots> \<longleftrightarrow> \<not> (\<exists>k\<in>?K. 0 < getOr0 (collapseTags toLowerCase a) k)"
    using getOr0_collapseTags_nonneg [of toLowerCase a] by (metis less_eq_real_def less_irrefl)
  also have "\<dots> \<longleftrightarrow> \<not> (\<exists>t\<in>set a. 0 < weight t)"
    by (auto simp: getOr0_collapseTags_pos)
  finally have d0: "?d = 0 \<longleftrightarrow> \<not> (\<exists>t\<in>set a. 0 < weight t)" .
  have "weightedJaccard toLowerCase a a = (if ?K = {} then 0 else if ?d = 0 then 0 else 1)"
    by (simp add: weightedJaccard_sum Let_def)
  then show ?thesis
    using d0 by auto
qed

subsection \<open>Reading the result of the loop over the lenses\<close>

lemma scores_computeSimilarity:
  "scores (computeSimilarity toLowerCase a b) lens =
     computeLensSimilarity toLowerCase (lensTags a lens) (lensTokens toLowerCase a lens) (lensTags b lens) (lensTokens toLowerCase b lens)"
  by (cases lens) (simp_all add: computeSimilarity_def lensBody_def Let_def)

lemma explanations_computeSimilarity:
  "explanations (computeSimilarity toLowerCase a b) lens =
     \<lparr>score = computeLensSimilarity toLowerCase (lensTags a lens) (lensTokens toLowerCase a lens)
                (lensTags b lens) (lensTokens toLowerCase b lens),
      overlapTags = overlap (explainLens toLowerCase (lensTags a lens) (lensTags b lens)),
      uniqueToA = uniqueA (explainLens toLowerCase (lensTags a lens) (lensTags b lens)),
      uniqueToB = uniqueB (explainLens toLowerCase (lensTags a lens) (lensTags b lens)),
      topWeights = topWeights' (explainLens toLowerCase (lensTags a lens) (lensTags b lens))\<rparr>"
  by (cases lens) (simp_all add: computeSimilarity_def lensBody_def Let_def)

lemma scoreOverall_computeSimilarity:
  "scoreOverall (computeSimilarity toLowerCase a b) =
     (scores (computeSimilarity toLowerCase a b) GIVEN * 0.8 + scores (computeSimilarity toLowerCase a b) CHOSEN * 1.0
        + scores (computeSimilarity toLowerCase a b) CORE * 1.2) / 3"
  by (simp add: computeSimilarity_def lensBody_def Let_def lensWeights_def)

subsection \<open>The split of the source and the words of the specification\<close>

lemma wordsOf_Nil: "wordsOf [] = []"
  by (subst wordsOf.simps) simp

lemma wordsOf_space: "isWhiteSpace c \<Longrightarrow> wordsOf (c # cs) = wordsOf cs"
  by (subst wordsOf.simps, subst (2) wordsOf.simps) simp

lemma wordsOf_letter:
  "\<not> isWhiteSpace c \<Longrightarrow>
   wordsOf (c # cs) = (c # takeWhile (\<lambda>x. \<not> isWhiteSpace x) cs)
                        # wordsOf (dropWhile (\<lambda>x. \<not> isWhiteSpace x) cs)"
  by (subst wordsOf.simps) simp

lemma wordsOf_first:
  "wordsOf s =
     (if takeWhile (\<lambda>x. \<not> isWhiteSpace x) s = [] then []
      else [takeWhile (\<lambda>x. \<not> isWhiteSpace x) s])
     @ wordsOf (dropWhile (\<lambda>x. \<not> isWhiteSpace x) s)"
proof (cases s)
  case Nil
  then show ?thesis by (simp add: wordsOf_Nil)
next
  case (Cons c cs)
  then show ?thesis
    by (cases "isWhiteSpace c") (simp_all add: wordsOf_letter)
qed

lemma filter_splitScan:
  "inSep \<longrightarrow> cur = [] \<Longrightarrow>
   filter (\<lambda>t. length t > 0) (splitScan cur inSep s) =
     (if rev cur @ takeWhile (\<lambda>x. \<not> isWhiteSpace x) s = [] then []
      else [rev cur @ takeWhile (\<lambda>x. \<not> isWhiteSpace x) s])
     @ wordsOf (dropWhile (\<lambda>x. \<not> isWhiteSpace x) s)"
proof (induction s arbitrary: cur inSep)
  case Nil
  then show ?case by (simp add: wordsOf_Nil)
next
  case (Cons c cs)
  show ?case
  proof (cases "isWhiteSpace c")
    case True
    have rest: "filter (\<lambda>t. length t > 0) (splitScan [] True cs) = wordsOf cs"
      using Cons.IH [of True "[]"] wordsOf_first [of cs] by simp
    show ?thesis
    proof (cases inSep)
      case True
      with Cons.prems \<open>isWhiteSpace c\<close> rest show ?thesis
        by (simp add: wordsOf_space)
    next
      case False
      with \<open>isWhiteSpace c\<close> rest show ?thesis
        by (simp add: wordsOf_space)
    qed
  next
    case False
    then show ?thesis
      using Cons.IH [of False "c # cur"] by simp
  qed
qed

lemma filter_splitWhitespace:
  "filter (\<lambda>t. length t > 0) (splitWhitespace s) = wordsOf s"
  using filter_splitScan [of False "[]" s] wordsOf_first [of s]
  by (simp add: splitWhitespace_def)

lemma endsWith_rev: "endsWith t suffix \<longleftrightarrow> take (length suffix) (rev t) = rev suffix"
proof (cases "length suffix \<le> length t")
  case True
  then show ?thesis
    by (simp add: endsWith_def take_rev)
next
  case False
  then have "length (take (length suffix) (rev t)) \<noteq> length (rev suffix)"
    by simp
  then have "take (length suffix) (rev t) \<noteq> rev suffix"
    by metis
  with False show ?thesis
    by (simp add: endsWith_def)
qed

lemma sliceEnd_rev: "sliceEnd t n = rev (drop n (rev t))"
  by (simp add: sliceEnd_def drop_rev)

lemma dropTrailing_eq:
  "dropTrailing suffix t = (if endsWith t suffix then Some (sliceEnd t (length suffix)) else None)"
  by (simp add: dropTrailing_def endsWith_rev sliceEnd_rev)

lemma simpleStem_stemOf: "simpleStem t = stemOf t"
  by (simp add: simpleStem_def stemOf_def dropTrailing_eq lit_def numeral_2_eq_2 numeral_3_eq_3)

text \<open>The two ranges of the regular expression and the characters of the class.\<close>

lemma unat_codeUnit: "n < 65536 \<Longrightarrow> unat (of_nat n :: codeUnit) = n"
  by (simp add: unat_of_nat)

lemma codeUnit_between:
  fixes c :: codeUnit
  assumes "lo \<le> hi" and "hi < 65536"
  shows "(of_nat lo \<le> c \<and> c \<le> of_nat hi) \<longleftrightarrow> c \<in> of_nat ` {lo..<Suc hi}"
proof
  assume "of_nat lo \<le> c \<and> c \<le> of_nat hi"
  then have "lo \<le> unat c \<and> unat c \<le> hi"
    using assms by (simp add: word_le_nat_alt unat_codeUnit)
  then have "unat c \<in> {lo..<Suc hi}"
    by simp
  moreover have "c = of_nat (unat c)"
    by simp
  ultimately show "c \<in> of_nat ` {lo..<Suc hi}"
    by (rule rev_image_eqI)
next
  assume "c \<in> of_nat ` {lo..<Suc hi}"
  then obtain n where n: "c = of_nat n" "lo \<le> n" "n \<le> hi"
    by auto
  then show "of_nat lo \<le> c \<and> c \<le> of_nat hi"
    using assms by (simp add: word_le_nat_alt unat_codeUnit)
qed

lemma set_lowerCaseLetters: "set lowerCaseLetters = of_nat ` {97..<Suc 122}"
proof -
  have e: "lowerCaseLetters = map of_nat [97..<Suc 122]"
    by (simp add: lowerCaseLetters_def lit_def upt_rec)
  show ?thesis
    by (simp only: e set_map set_upt)
qed

lemma set_decimalDigits: "set decimalDigits = of_nat ` {48..<Suc 57}"
proof -
  have e: "decimalDigits = map of_nat [48..<Suc 57]"
    by (simp add: decimalDigits_def lit_def upt_rec)
  show ?thesis
    by (simp only: e set_map set_upt)
qed

lemma isKeptChar_class: "isKeptChar c \<longleftrightarrow> isLetterOrDigit c \<or> isWhiteSpace c"
proof -
  have "(0x61 \<le> c \<and> c \<le> 0x7A) \<longleftrightarrow> c \<in> set lowerCaseLetters"
    using codeUnit_between [of 97 122 c] by (simp only: set_lowerCaseLetters) simp
  moreover have "(0x30 \<le> c \<and> c \<le> 0x39) \<longleftrightarrow> c \<in> set decimalDigits"
    using codeUnit_between [of 48 57 c] by (simp only: set_decimalDigits) simp
  ultimately show ?thesis
    by (simp add: isKeptChar_def isLetterOrDigit_def)
qed

lemma replaceNonAlnum_blankOthers: "replaceNonAlnum s = blankOthers s"
  by (simp add: replaceNonAlnum_def blankOthers_def isKeptChar_class)

lemma set_STOP_WORDS: "set STOP_WORDS = stopwordSet"
  by (simp add: STOP_WORDS_def stopwordSet_def)

subsection \<open>The collapsed map and the map of maxima\<close>

lemma normalizedValue_tagKey: "normalizedValue toLowerCase t = tagKey toLowerCase t"
  by (simp add: normalizedValue_def tagKey_def)

lemma dom_maxWeightMap: "dom (maxWeightMap toLowerCase items) = set (map (normalizedValue toLowerCase) items)"
  by (auto simp: maxWeightMap_def Let_def dom_def filter_empty_conv)

lemma map_of_None_keys: "map_of m k = None \<longleftrightarrow> k \<notin> set (mapKeys m)"
  by (simp add: mapKeys_def map_of_eq_None_iff)

lemma map_of_getOr0: "k \<in> set (mapKeys m) \<Longrightarrow> map_of m k = Some (getOr0 m k)"
  by (cases "map_of m k") (simp_all add: getOr0_def map_of_None_keys)

lemma map_of_collapseTags:
  assumes "\<forall>t\<in>set items. 0 \<le> weight t"
  shows "map_of (collapseTags toLowerCase items) = maxWeightMap toLowerCase items"
proof
  fix k
  let ?W = "weight ` {t \<in> set items. tagKey toLowerCase t = k}"
  have W: "set (map weight (filter (\<lambda>t. normalizedValue toLowerCase t = k) items)) = ?W"
    by (auto simp: normalizedValue_tagKey)
  show "map_of (collapseTags toLowerCase items) k = maxWeightMap toLowerCase items k"
  proof (cases "k \<in> tagKey toLowerCase ` set items")
    case False
    then have "filter (\<lambda>t. normalizedValue toLowerCase t = k) items = []"
      by (auto simp: filter_empty_conv normalizedValue_tagKey)
    with False show ?thesis
      by (simp add: maxWeightMap_def map_of_None_keys keys_collapseTags)
  next
    case True
    then have ne: "?W \<noteq> {}" by auto
    then have ne': "map weight (filter (\<lambda>t. normalizedValue toLowerCase t = k) items) \<noteq> []"
      using W by (metis set_empty)
    have "0 \<le> Max ?W"
      using ne assms by (subst Max_ge_iff) auto
    then have "Max (insert 0 ?W) = Max ?W"
      using ne by simp
    then have "map_of (collapseTags toLowerCase items) k = Some (Max ?W)"
      using True by (simp add: map_of_getOr0 keys_collapseTags getOr0_collapseTags)
    then show ?thesis
      using ne' W by (simp add: maxWeightMap_def Let_def)
  qed
qed

lemma getOr0_weightOrZero: "getOr0 m k = weightOrZero (map_of m) k"
  by (simp add: getOr0_def weightOrZero_def)

lemma jaccard_agrees_with_formula:
  assumes "\<forall>t\<in>set a. 0 < weight t" and "\<forall>t\<in>set b. 0 < weight t"
  shows "weightedJaccard toLowerCase a b = weightedJaccardFormula toLowerCase a b"
    and "set (map (normalizedValue toLowerCase) a) \<union> set (map (normalizedValue toLowerCase) b) \<noteq> {} \<Longrightarrow>
         0 < (\<Sum>k\<in>set (map (normalizedValue toLowerCase) a) \<union> set (map (normalizedValue toLowerCase) b).
                max (weightOrZero (maxWeightMap toLowerCase a) k) (weightOrZero (maxWeightMap toLowerCase b) k))"
proof -
  let ?U = "set (map (normalizedValue toLowerCase) a) \<union> set (map (normalizedValue toLowerCase) b)"
  let ?d = "\<Sum>k\<in>?U. max (weightOrZero (maxWeightMap toLowerCase a) k) (weightOrZero (maxWeightMap toLowerCase b) k)"
  have ma: "map_of (collapseTags toLowerCase a) = maxWeightMap toLowerCase a"
    using assms(1) by (intro map_of_collapseTags) (auto intro: less_imp_le)
  have mb: "map_of (collapseTags toLowerCase b) = maxWeightMap toLowerCase b"
    using assms(2) by (intro map_of_collapseTags) (auto intro: less_imp_le)
  have U: "tagKey toLowerCase ` set a \<union> tagKey toLowerCase ` set b = ?U"
    by (simp add: normalizedValue_tagKey [abs_def])
  have pos: "0 < max (weightOrZero (maxWeightMap toLowerCase a) k) (weightOrZero (maxWeightMap toLowerCase b) k)"
    if "k \<in> ?U" for k
  proof -
    from that have "(\<exists>t\<in>set a. tagKey toLowerCase t = k \<and> 0 < weight t) \<or> (\<exists>t\<in>set b. tagKey toLowerCase t = k \<and> 0 < weight t)"
      using assms by (auto simp: normalizedValue_tagKey)
    then have "0 < getOr0 (collapseTags toLowerCase a) k \<or> 0 < getOr0 (collapseTags toLowerCase b) k"
      by (simp add: getOr0_collapseTags_pos)
    then show ?thesis
      by (auto simp: getOr0_weightOrZero ma mb less_max_iff_disj)
  qed
  show d: "0 < ?d" if "?U \<noteq> {}"
    using that pos by (intro sum_pos) auto
  show "weightedJaccard toLowerCase a b = weightedJaccardFormula toLowerCase a b"
    using d by (simp add: weightedJaccard_sum weightedJaccardFormula_def Let_def U
        getOr0_weightOrZero ma mb)
qed


subsection \<open>The loop and the sort of the explanation\<close>






lemma length_insertBy: "length (insertBy cmp x ys) = Suc (length ys)"
  by (induction ys) auto

lemma length_sortBy: "length (sortBy cmp xs) = length xs"
  by (induction xs) (simp_all add: sortBy_def length_insertBy)








subsection \<open>Keys of positive weight\<close>


subsection \<open>Evaluation on concrete inputs\<close>

lemmas string_eval =
  lit_def isWhiteSpace_def isUpperLatin1_def toLowerCaseLatin1_def trim_def endsWith_def
  sliceEnd_def isKeptChar_def replaceNonAlnum_def splitWhitespace_def STOP_WORDS_def
  simpleStem_def tokenize_def

lemmas engine_eval =
  getOr0_def mapKeys_def setAdd_def newSet_def tagKey_def collapseStep_def collapseTags_def
  allKeysOf_def jaccardStep_def weightedJaccard_def textJaccard_def computeLensSimilarity_def
  orEmpty_def lensTags_def lensTokens_def

text \<open>The two sentences of the text Jaccard test of the repository.\<close>

lemma tokenize_examples:
  "tokenize toLowerCaseLatin1 (lit ''Loves hiking and swimming in the ocean'')
     = [lit ''love'', lit ''hik'', lit ''swimm'', lit ''ocean'']"
  "tokenize toLowerCaseLatin1 (lit ''Hiking is my favorite activity by the sea'')
     = [lit ''hik'', lit ''my'', lit ''favorite'', lit ''activity'', lit ''sea'']"
  by (simp_all add: string_eval)

lemma halfScores: "scores (computeSimilarity toLowerCaseLatin1 halfA halfB) lens = 0.5"
  by (simp add: scores_computeSimilarity halfA_def halfB_def string_eval engine_eval)

section \<open>The claims\<close>

text \<open>
  Claim C1. For two identities within the weight contract (every weight an integer in
  \<open>[1,3]\<close>, so that every sum of the source is exact), swapping the two identities changes
  neither the overall score nor the score of any lens.
\<close>

theorem computeSimilarity_symmetric:
  assumes "contractIdentity a" and "contractIdentity b"
  shows "scoreOverall (computeSimilarity toLowerCase a b)
           = scoreOverall (computeSimilarity toLowerCase b a) \<and>
         (\<forall>lens. scores (computeSimilarity toLowerCase a b) lens
                  = scores (computeSimilarity toLowerCase b a) lens)"
proof -
  have "scores (computeSimilarity toLowerCase a b) lens
          = scores (computeSimilarity toLowerCase b a) lens" for lens
    by (simp add: scores_computeSimilarity computeLensSimilarity_def
        weightedJaccard_commute [of toLowerCase "lensTags a lens"]
        textJaccard_commute [of "lensTokens toLowerCase a lens"])
  then show ?thesis
    by (simp add: scoreOverall_computeSimilarity)
qed

theorem computeSimilarity_symmetric_witness:
  "contractIdentity halfA \<and> contractIdentity halfB \<and>
   scoreOverall (computeSimilarity toLowerCaseLatin1 halfA halfB)
     = scoreOverall (computeSimilarity toLowerCaseLatin1 halfB halfA) \<and>
   (\<forall>lens. scores (computeSimilarity toLowerCaseLatin1 halfA halfB) lens
            = scores (computeSimilarity toLowerCaseLatin1 halfB halfA) lens)"
proof -
  have a: "contractIdentity halfA"
    by (simp add: contractIdentity_def contractTags_def contractWeight_def halfA_def orEmpty_def)
  have b: "contractIdentity halfB"
    by (simp add: contractIdentity_def contractTags_def contractWeight_def halfB_def orEmpty_def)
  show ?thesis
    using a b computeSimilarity_symmetric [OF a b, of toLowerCaseLatin1] by simp
qed

text \<open>Every lens score lies in \<open>[0,1]\<close>, whatever the weights are.\<close>

lemma lens_score_range:
  "0 \<le> scores (computeSimilarity toLowerCase a b) lens \<and>
   scores (computeSimilarity toLowerCase a b) lens \<le> 1"
proof -
  let ?jw = "weightedJaccard toLowerCase (lensTags a lens) (lensTags b lens)"
  let ?tj = "textJaccard (lensTokens toLowerCase a lens) (lensTokens toLowerCase b lens)"
  have "0 \<le> ?jw" "?jw \<le> 1" "0 \<le> ?tj" "?tj \<le> 1"
    using weightedJaccard_range textJaccard_range by blast+
  then show ?thesis
    by (simp add: scores_computeSimilarity computeLensSimilarity_def)
qed

text \<open>
  Claim C2. For two identities whose tag weights all lie in \<open>[1,3]\<close>, every lens score and
  the overall score lie in the closed interval \<open>[0,1]\<close>.
\<close>

theorem computeSimilarity_bounds:
  assumes "weightsInRange a" and "weightsInRange b"
  shows "(\<forall>lens. 0 \<le> scores (computeSimilarity toLowerCase a b) lens \<and>
                 scores (computeSimilarity toLowerCase a b) lens \<le> 1) \<and>
         0 \<le> scoreOverall (computeSimilarity toLowerCase a b) \<and>
         scoreOverall (computeSimilarity toLowerCase a b) \<le> 1"
proof -
  let ?r = "computeSimilarity toLowerCase a b"
  have "0 \<le> scores ?r GIVEN" "scores ?r GIVEN \<le> 1"
       "0 \<le> scores ?r CHOSEN" "scores ?r CHOSEN \<le> 1"
       "0 \<le> scores ?r CORE" "scores ?r CORE \<le> 1"
    using lens_score_range by blast+
  then have "0 \<le> scoreOverall ?r \<and> scoreOverall ?r \<le> 1"
    by (simp add: scoreOverall_computeSimilarity)
  then show ?thesis
    using lens_score_range by blast
qed

theorem computeSimilarity_bounds_witness:
  "weightsInRange halfA \<and> weightsInRange halfB \<and>
   (\<forall>lens. 0 \<le> scores (computeSimilarity toLowerCaseLatin1 halfA halfB) lens \<and>
           scores (computeSimilarity toLowerCaseLatin1 halfA halfB) lens \<le> 1) \<and>
   0 \<le> scoreOverall (computeSimilarity toLowerCaseLatin1 halfA halfB) \<and>
   scoreOverall (computeSimilarity toLowerCaseLatin1 halfA halfB) \<le> 1"
proof -
  have a: "weightsInRange halfA" by (simp add: weightsInRange_def halfA_def orEmpty_def)
  have b: "weightsInRange halfB" by (simp add: weightsInRange_def halfB_def orEmpty_def)
  show ?thesis
    using a b computeSimilarity_bounds [OF a b, of toLowerCaseLatin1] by simp
qed

text \<open>
  Claim C3, as the code has it. Comparing an identity with itself gives, in every lens, 0.7
  if the lens has a tag of positive weight (and 0 for the tag part otherwise) plus 0.3 if
  the texts of the lens yield a token (and 0 for the text part otherwise). So the lens score
  is 1 where the lens has both a tag of positive weight and a token.
\<close>

theorem self_similarity:
  "scores (computeSimilarity toLowerCase a a) lens =
     0.7 * (if \<exists>t\<in>set (orEmpty (tags a lens)). 0 < weight t then 1 else 0)
     + 0.3 * (if concat (map (tokenize toLowerCase) (orEmpty (texts a lens))) = [] then 0 else 1) \<and>
   ((\<exists>t\<in>set (orEmpty (tags a lens)). 0 < weight t) \<and>
    concat (map (tokenize toLowerCase) (orEmpty (texts a lens))) \<noteq> []
      \<longrightarrow> scores (computeSimilarity toLowerCase a a) lens = 1)"
  by (simp add: scores_computeSimilarity computeLensSimilarity_def weightedJaccard_self
      textJaccard_self lensTags_def lensTokens_def)

theorem self_similarity_witness:
  "(\<exists>t\<in>set (orEmpty (tags halfA CORE)). 0 < weight t) \<and>
   concat (map (tokenize toLowerCaseLatin1) (orEmpty (texts halfA CORE))) \<noteq> [] \<and>
   scores (computeSimilarity toLowerCaseLatin1 halfA halfA) CORE = 1"
proof -
  have t: "\<exists>t\<in>set (orEmpty (tags halfA CORE)). 0 < weight t"
    by (simp add: halfA_def orEmpty_def)
  have x: "concat (map (tokenize toLowerCaseLatin1) (orEmpty (texts halfA CORE))) \<noteq> []"
    by (simp add: halfA_def orEmpty_def string_eval)
  show ?thesis
    using t x self_similarity [of toLowerCaseLatin1 halfA CORE] by simp
qed

text \<open>
  The claim as it is written asks for the score 1 in every lens with a tag or a text. An
  identity with a tag and no text in a lens scores 0.7 there: the text Jaccard of two empty
  token sets is 0.
\<close>

theorem self_similarity_tags_only_counterexample:
  "orEmpty (tags tagsOnly GIVEN) \<noteq> [] \<and>
   scores (computeSimilarity toLowerCaseLatin1 tagsOnly tagsOnly) GIVEN = 0.7 \<and>
   scores (computeSimilarity toLowerCaseLatin1 tagsOnly tagsOnly) GIVEN \<noteq> 1"
  by (simp add: scores_computeSimilarity tagsOnly_def string_eval engine_eval)

text \<open>
  Claim C4. For two tag lists within the weight contract: the map the code builds is the
  map from the trimmed, lowercased value to the maximum weight among the tags with that
  value; the keys the code iterates over are the union of the keys of both maps; the result
  is 0 when that union is empty and otherwise the sum of the minima divided by the sum of
  the maxima, an absent key counting with weight 0, and that denominator is positive. The
  worked example, whose values are lower-case ASCII words, gives exactly 1/7.
\<close>

theorem weightedJaccard_formula:
  assumes "contractTags a" and "contractTags b"
  shows "map_of (collapseTags toLowerCase a) = maxWeightMap toLowerCase a \<and>
         map_of (collapseTags toLowerCase b) = maxWeightMap toLowerCase b \<and>
         set (allKeysOf (collapseTags toLowerCase a) (collapseTags toLowerCase b))
           = dom (maxWeightMap toLowerCase a) \<union> dom (maxWeightMap toLowerCase b) \<and>
         weightedJaccard toLowerCase a b = weightedJaccardFormula toLowerCase a b \<and>
         (dom (maxWeightMap toLowerCase a) \<union> dom (maxWeightMap toLowerCase b) = {}
            \<longrightarrow> weightedJaccard toLowerCase a b = 0) \<and>
         (dom (maxWeightMap toLowerCase a) \<union> dom (maxWeightMap toLowerCase b) \<noteq> {} \<longrightarrow>
            0 < (\<Sum>k\<in>dom (maxWeightMap toLowerCase a) \<union> dom (maxWeightMap toLowerCase b).
                   max (weightOrZero (maxWeightMap toLowerCase a) k)
                       (weightOrZero (maxWeightMap toLowerCase b) k))) \<and>
         weightedJaccard toLowerCaseLatin1 set1 set4 = 1 / 7"
proof -
  have pa: "\<forall>t\<in>set a. 0 < weight t"
    using assms(1) by (auto simp: contractTags_def contractWeight_def list_all_iff)
  have pb: "\<forall>t\<in>set b. 0 < weight t"
    using assms(2) by (auto simp: contractTags_def contractWeight_def list_all_iff)
  have ma: "map_of (collapseTags toLowerCase a) = maxWeightMap toLowerCase a"
    using pa by (intro map_of_collapseTags) (auto intro: less_imp_le)
  have mb: "map_of (collapseTags toLowerCase b) = maxWeightMap toLowerCase b"
    using pb by (intro map_of_collapseTags) (auto intro: less_imp_le)
  have keys: "set (allKeysOf (collapseTags toLowerCase a) (collapseTags toLowerCase b))
                = dom (maxWeightMap toLowerCase a) \<union> dom (maxWeightMap toLowerCase b)"
    by (simp add: set_allKeysOf keys_collapseTags dom_maxWeightMap normalizedValue_tagKey [abs_def])
  have ex: "weightedJaccard toLowerCaseLatin1 set1 set4 = 1 / 7"
    by (simp add: set1_def set4_def string_eval engine_eval)
  have f: "weightedJaccard toLowerCase a b = weightedJaccardFormula toLowerCase a b"
    using pa pb by (rule jaccard_agrees_with_formula(1))
  have z: "weightedJaccard toLowerCase a b = 0"
    if "dom (maxWeightMap toLowerCase a) \<union> dom (maxWeightMap toLowerCase b) = {}"
    using that unfolding f by (simp add: weightedJaccardFormula_def dom_maxWeightMap)
  show ?thesis
    using ma mb keys ex f z jaccard_agrees_with_formula(2) [OF pa pb, of toLowerCase]
    by (simp add: dom_maxWeightMap)
qed

theorem weightedJaccard_formula_witness:
  "contractTags set1 \<and> contractTags set4 \<and>
   map_of (collapseTags toLowerCaseLatin1 set1) (lit ''music'') = Some 3 \<and>
   maxWeightMap toLowerCaseLatin1 set1 (lit ''music'') = Some 3 \<and>
   dom (maxWeightMap toLowerCaseLatin1 set1) \<union> dom (maxWeightMap toLowerCaseLatin1 set4) \<noteq> {} \<and>
   0 < (\<Sum>k\<in>dom (maxWeightMap toLowerCaseLatin1 set1) \<union> dom (maxWeightMap toLowerCaseLatin1 set4).
          max (weightOrZero (maxWeightMap toLowerCaseLatin1 set1) k)
              (weightOrZero (maxWeightMap toLowerCaseLatin1 set4) k)) \<and>
   weightedJaccardFormula toLowerCaseLatin1 set1 set4 = 1 / 7"
proof -
  have a: "contractTags set1" by (simp add: contractTags_def contractWeight_def set1_def)
  have b: "contractTags set4" by (simp add: contractTags_def contractWeight_def set4_def)
  have m: "maxWeightMap toLowerCaseLatin1 set1 (lit ''music'') = Some 3"
    by (simp add: maxWeightMap_def normalizedValue_def set1_def string_eval)
  have d: "dom (maxWeightMap toLowerCaseLatin1 set1) \<union> dom (maxWeightMap toLowerCaseLatin1 set4) \<noteq> {}"
    by (simp add: dom_maxWeightMap set1_def)
  show ?thesis
    using a b m d weightedJaccard_formula [OF a b, of toLowerCaseLatin1] by simp
qed

text \<open>
  Claim C5. The lens weights are 0.8, 1.0 and 1.2, the overall score is the sum of the
  weighted lens scores divided by 3.0, and three lens scores of 0.5 give an overall score of
  0.5.
\<close>

theorem overall_is_weighted_mean:
  "lensWeights GIVEN = 0.8 \<and> lensWeights CHOSEN = 1.0 \<and> lensWeights CORE = 1.2 \<and>
   scoreOverall (computeSimilarity toLowerCase a b) =
     (0.8 * scores (computeSimilarity toLowerCase a b) GIVEN
        + 1.0 * scores (computeSimilarity toLowerCase a b) CHOSEN
        + 1.2 * scores (computeSimilarity toLowerCase a b) CORE) / 3.0 \<and>
   (scores (computeSimilarity toLowerCase a b) GIVEN = 0.5 \<and>
    scores (computeSimilarity toLowerCase a b) CHOSEN = 0.5 \<and>
    scores (computeSimilarity toLowerCase a b) CORE = 0.5
      \<longrightarrow> scoreOverall (computeSimilarity toLowerCase a b) = 0.5)"
  by (simp add: scoreOverall_computeSimilarity lensWeights_def)

theorem overall_is_weighted_mean_witness:
  "scores (computeSimilarity toLowerCaseLatin1 halfA halfB) GIVEN = 0.5 \<and>
   scores (computeSimilarity toLowerCaseLatin1 halfA halfB) CHOSEN = 0.5 \<and>
   scores (computeSimilarity toLowerCaseLatin1 halfA halfB) CORE = 0.5 \<and>
   scoreOverall (computeSimilarity toLowerCaseLatin1 halfA halfB) = 0.5"
  using overall_is_weighted_mean [of toLowerCaseLatin1 halfA halfB] halfScores by simp

text \<open>
  Claim C6. The score of a lens is 0.7 times the weighted Jaccard of the two tag lists plus
  0.3 times the text Jaccard of the two token lists, each token list being the concatenation,
  in order, of the tokens of every text of that participant in that lens.
\<close>

theorem lens_score_blend:
  "scores (computeSimilarity toLowerCase a b) lens =
     0.7 * weightedJaccard toLowerCase (orEmpty (tags a lens)) (orEmpty (tags b lens))
     + 0.3 * textJaccard (concat (map (tokenize toLowerCase) (orEmpty (texts a lens))))
                         (concat (map (tokenize toLowerCase) (orEmpty (texts b lens))))"
  by (simp add: scores_computeSimilarity computeLensSimilarity_def lensTags_def lensTokens_def)

text \<open>
  Claim C7. For every string, \<open>tokenize\<close> returns, in input order, the tokens of the
  pipeline of the specification: lowercase, replace every character that is neither one of
  the letters \<open>a\<close> to \<open>z\<close> or digits \<open>0\<close> to \<open>9\<close> nor white space by a space, split on
  white-space runs without empty tokens, drop the stopwords, stem each token by at most one
  of the three suffix rules.
\<close>

theorem tokenize_is_pipeline: "tokenize toLowerCase text = tokenizePipeline toLowerCase text"
proof -
  let ?cleaned = "replaceNonAlnum (toLowerCase text)"
  have "tokenize toLowerCase text =
          map simpleStem (filter (\<lambda>t. t \<notin> set STOP_WORDS)
            (filter (\<lambda>t. length t > 0) (splitWhitespace ?cleaned)))"
    by (simp only: tokenize_def Let_def)
  also have "\<dots> = map simpleStem (filter (\<lambda>t. t \<notin> set STOP_WORDS) (wordsOf ?cleaned))"
    by (simp only: filter_splitWhitespace)
  also have "\<dots> = map stemOf (filter (\<lambda>t. t \<notin> stopwordSet) (wordsOf ?cleaned))"
    by (simp add: set_STOP_WORDS simpleStem_stemOf [abs_def])
  also have "\<dots> = tokenizePipeline toLowerCase text"
    by (simp only: tokenizePipeline_def replaceNonAlnum_blankOthers)
  finally show ?thesis .
qed

text \<open>
  Claim C8. The weighted Jaccard is 0 when the union of keys is empty, the text Jaccard is 0
  when both token sets are empty, and a lens in which both participants have no tags and no
  texts scores exactly 0, in the scores record and in the explanation.
\<close>

theorem empty_lens_scores_zero:
  "(allKeysOf (collapseTags toLowerCase x) (collapseTags toLowerCase y) = []
      \<longrightarrow> weightedJaccard toLowerCase x y = 0) \<and>
   (newSet s = [] \<and> newSet t = [] \<longrightarrow> textJaccard s t = 0) \<and>
   (orEmpty (tags a lens) = [] \<and> orEmpty (texts a lens) = [] \<and>
    orEmpty (tags b lens) = [] \<and> orEmpty (texts b lens) = []
      \<longrightarrow> scores (computeSimilarity toLowerCase a b) lens = 0 \<and>
          score (explanations (computeSimilarity toLowerCase a b) lens) = 0)"
  by (simp add: weightedJaccard_def textJaccard_def Let_def explanations_computeSimilarity
      scores_computeSimilarity computeLensSimilarity_def lensTags_def lensTokens_def
      collapseTags_def allKeysOf_def mapKeys_def newSet_def)

theorem empty_lens_scores_zero_witness:
  "allKeysOf (collapseTags toLowerCaseLatin1 []) (collapseTags toLowerCaseLatin1 []) = [] \<and>
   weightedJaccard toLowerCaseLatin1 [] [] = 0 \<and>
   newSet ([] :: jsString list) = [] \<and> textJaccard [] [] = 0 \<and>
   orEmpty (tags emptyIdentity CORE) = [] \<and> orEmpty (texts emptyIdentity CORE) = [] \<and>
   scores (computeSimilarity toLowerCaseLatin1 emptyIdentity emptyIdentity) CORE = 0 \<and>
   score (explanations (computeSimilarity toLowerCaseLatin1 emptyIdentity emptyIdentity) CORE) = 0"
proof -
  have k: "allKeysOf (collapseTags toLowerCaseLatin1 []) (collapseTags toLowerCaseLatin1 []) = []"
    by (simp add: allKeysOf_def collapseTags_def mapKeys_def newSet_def)
  have n: "newSet ([] :: jsString list) = []"
    by (simp add: newSet_def)
  have e: "orEmpty (tags emptyIdentity CORE) = []" "orEmpty (texts emptyIdentity CORE) = []"
    by (simp_all add: emptyIdentity_def orEmpty_def)
  show ?thesis
    using k n e
      empty_lens_scores_zero [of toLowerCaseLatin1 "[]" "[]" "[]" "[]" emptyIdentity CORE
        emptyIdentity]
    by simp
qed




text \<open>
  Claim C10. The score stored in the explanation of a lens equals the entry of that lens in
  the scores record.
\<close>

theorem explanation_score_matches:
  "score (explanations (computeSimilarity toLowerCase a b) lens)
     = scores (computeSimilarity toLowerCase a b) lens"
  by (simp add: explanations_computeSimilarity scores_computeSimilarity)

end
